theory Spec2Isabelle
  imports Complex_Main
begin

section \<open>The microphone station (class EVAMicrophoneStation)\<close>

text \<open>
  A shallow embedding of the pitch-tracking mission logic of
  \<^verbatim>\<open>src/reference/reference_script.js\<close>. JavaScript numbers that hold frequencies and
  decibel values are modelled as real numbers (rounding of IEEE doubles is not modelled);
  \<^verbatim>\<open>Date.now()\<close> is an integer number of milliseconds and is passed to the functions
  that read it as the parameter \<open>now\<close>. Counters that the code only ever increments
  from zero are natural numbers.
\<close>

subsection \<open>Data\<close>

text \<open>An entry of \<^verbatim>\<open>targetTones\<close>; its field \<^verbatim>\<open>note\<close> is \<open>noteName\<close> here.\<close>

record targetTone =
  noteName :: string
  frequency :: real
  color :: string

text \<open>The fields \<^verbatim>\<open>targetTones\<close>, \<^verbatim>\<open>tolerance\<close> and \<^verbatim>\<open>requiredHitDuration\<close> are
  assigned in the constructor only, so they are constants here.\<close>

definition targetTones :: "targetTone list" where
  "targetTones =
    [\<lparr>noteName = ''C'', frequency = 26163 / 100, color = ''#ff6b6b''\<rparr>,
     \<lparr>noteName = ''F#'', frequency = 36999 / 100, color = ''#4ecdc4''\<rparr>,
     \<lparr>noteName = ''A'', frequency = 440, color = ''#45b7d1''\<rparr>]"

definition tolerance :: real where
  "tolerance = 40"

definition requiredHitDuration :: int where
  "requiredHitDuration = 1500"

text \<open>The callbacks that \<^verbatim>\<open>completeMission\<close> hands to \<^verbatim>\<open>setTimeout\<close>.\<close>

datatype callback = NextMission | EnterEndlessMode

text \<open>
  The instance fields the mission logic reads or writes. \<open>audioContext\<close> is whether the
  field holds a context (\<open>False\<close> is \<^verbatim>\<open>null\<close>). \<open>hitProgress\<close> is the presentation
  state written by \<^verbatim>\<open>updateHitProgress\<close>: the argument of its last call (the method
  sets the target line's opacity to \<open>0.8 + progress * 0.4\<close>). \<open>timers\<close> are the
  pending \<^verbatim>\<open>setTimeout\<close> calls of \<^verbatim>\<open>completeMission\<close>, oldest first, each with its delay
  in milliseconds. The canvas, the pitch trail and the other DOM updates are not part of
  the model.
\<close>

record station =
  audioContext :: bool
  isRecording :: bool
  currentToneIndex :: nat
  isHittingTarget :: bool
  hitStartTime :: int
  hitDuration :: int
  missionCompleted :: bool
  completedTones :: nat
  endlessMode :: bool
  hitProgress :: real
  timers :: "(nat \<times> callback) list"

text \<open>The state the constructor builds (no \<^verbatim>\<open>updateHitProgress\<close> call has been made yet).\<close>

definition initial :: station where
  "initial =
    \<lparr>audioContext = False, isRecording = False, currentToneIndex = 0,
     isHittingTarget = False, hitStartTime = 0, hitDuration = 0,
     missionCompleted = False, completedTones = 0, endlessMode = False,
     hitProgress = 0, timers = []\<rparr>"

text \<open>A value of the \<^verbatim>\<open>Float32Array\<close> that \<^verbatim>\<open>getFloatFrequencyData\<close> fills: a finite
  number of decibels, or \<^verbatim>\<open>-Infinity\<close> for a silent bin. \<^verbatim>\<open>maxValue\<close> starts at
  \<^verbatim>\<open>-Infinity\<close> too.\<close>

datatype db = NegInfinity | Finite real

text \<open>\<open>db_gt a b\<close> is JavaScript's \<^verbatim>\<open>a > b\<close> on these values.\<close>

fun db_gt :: "db \<Rightarrow> db \<Rightarrow> bool" where
  "db_gt (Finite a) (Finite b) = (a > b)"
| "db_gt (Finite a) NegInfinity = True"
| "db_gt NegInfinity b = False"

text \<open>Reading a property of \<^verbatim>\<open>undefined\<close> throws.\<close>

datatype error = TypeError

text \<open>The mission state of the specification, read off the three flags.\<close>

datatype missionState = Idle | HittingTarget | Completed | EndlessMode

definition stateOf :: "station \<Rightarrow> missionState" where
  "stateOf s =
    (if endlessMode s then EndlessMode
     else if missionCompleted s then Completed
     else if isHittingTarget s then HittingTarget
     else Idle)"

subsection \<open>Recording\<close>

definition updateHitProgress :: "real \<Rightarrow> station \<Rightarrow> station" where
  "updateHitProgress progress s = s\<lparr>hitProgress := progress\<rparr>"

definition resetMissionState :: "station \<Rightarrow> station" where
  "resetMissionState s =
    updateHitProgress 0 (s\<lparr>isHittingTarget := False, hitDuration := 0, hitStartTime := 0\<rparr>)"

definition stopRecording :: "station \<Rightarrow> station" where
  "stopRecording s =
    (let s1 = s\<lparr>audioContext := False, isRecording := False\<rparr>
     in if \<not> missionCompleted s1 \<and> \<not> endlessMode s1 then resetMissionState s1 else s1)"

text \<open>\<^verbatim>\<open>startRecording\<close> when the microphone is granted; its call of
  \<^verbatim>\<open>visualizationLoop\<close> is the next frame. When access is refused nothing of the
  state changes.\<close>

definition startRecording :: "station \<Rightarrow> station" where
  "startRecording s = s\<lparr>audioContext := True, isRecording := True\<rparr>"

definition toggleRecording :: "station \<Rightarrow> station" where
  "toggleRecording s = (if \<not> isRecording s then startRecording s else stopRecording s)"

subsection \<open>The dominant frequency\<close>

text \<open>The \<^verbatim>\<open>for\<close> loop of \<^verbatim>\<open>findDominantFrequency\<close>: \<open>i\<close> runs up to \<open>stop\<close>, the pair
  is \<^verbatim>\<open>(maxIndex, maxValue)\<close>.\<close>

function findLoop :: "db list \<Rightarrow> nat \<Rightarrow> nat \<Rightarrow> nat \<times> db \<Rightarrow> nat \<times> db" where
  "findLoop bins i stop (maxIndex, maxValue) =
    (if i < stop
     then findLoop bins (i + 1) stop
            (if db_gt (bins ! i) maxValue then (i, bins ! i) else (maxIndex, maxValue))
     else (maxIndex, maxValue))"
  by pat_completeness auto
termination
  by (relation "measure (\<lambda>(bins, i, stop, acc). stop - i)") auto

text \<open>The bounds of the loop, \<^verbatim>\<open>Math.floor\<close> of a quotient that is not negative (the
  sample rate of an audio context is positive).\<close>

definition startIndex :: "db list \<Rightarrow> real \<Rightarrow> nat" where
  "startIndex bins sampleRate = nat \<lfloor>100 * real (length bins) / (sampleRate / 2)\<rfloor>"

definition endIndex :: "db list \<Rightarrow> real \<Rightarrow> nat" where
  "endIndex bins sampleRate = nat \<lfloor>1000 * real (length bins) / (sampleRate / 2)\<rfloor>"

text \<open>\<open>bins\<close> is \<^verbatim>\<open>this.frequencyBins\<close> as the analyser filled it for the frame,
  \<open>sampleRate\<close> the audio context's. The result \<open>0\<close> is "no signal".\<close>

definition findDominantFrequency :: "db list \<Rightarrow> real \<Rightarrow> real" where
  "findDominantFrequency bins sampleRate =
    (case findLoop bins (startIndex bins sampleRate)
            (min (endIndex bins sampleRate) (length bins)) (0, NegInfinity) of
       (maxIndex, maxValue) \<Rightarrow>
         if db_gt maxValue (Finite (- 60))
         then (real maxIndex * sampleRate) / (2 * real (length bins))
         else 0)"

subsection \<open>Target detection\<close>

definition checkTargetHit :: "station \<Rightarrow> real \<Rightarrow> error + bool" where
  "checkTargetHit s f =
    (if endlessMode s then Inr True
     else if currentToneIndex s < length targetTones
     then Inr (\<bar>f - frequency (targetTones ! currentToneIndex s)\<bar> \<le> tolerance)
     else Inl TypeError)"

definition setTimeout :: "callback \<Rightarrow> nat \<Rightarrow> station \<Rightarrow> station" where
  "setTimeout cb delay s = s\<lparr>timers := timers s @ [(delay, cb)]\<rparr>"

text \<open>\<^verbatim>\<open>showSuccessAnimation\<close> and \<^verbatim>\<open>updateMissionDisplay\<close>, called here, only read the
  fields of the station and write to the page.\<close>

definition completeMission :: "station \<Rightarrow> station" where
  "completeMission s =
    (if missionCompleted s then s
     else
       let s1 = s\<lparr>missionCompleted := True, completedTones := completedTones s + 1\<rparr>
       in if completedTones s1 \<ge> length targetTones
          then setTimeout EnterEndlessMode 3000 s1
          else setTimeout NextMission 3000 s1)"

definition handleTargetHit :: "bool \<Rightarrow> int \<Rightarrow> station \<Rightarrow> station" where
  "handleTargetHit isHitting now s =
    (if endlessMode s then s
     else if isHitting \<and> \<not> missionCompleted s then
       let s1 = (if \<not> isHittingTarget s
                 then s\<lparr>isHittingTarget := True, hitStartTime := now\<rparr> else s);
           s2 = s1\<lparr>hitDuration := now - hitStartTime s1\<rparr>;
           s3 = updateHitProgress (real_of_int (hitDuration s2) / real_of_int requiredHitDuration) s2
       in if hitDuration s3 \<ge> requiredHitDuration then completeMission s3 else s3
     else if isHittingTarget s
       then updateHitProgress 0 (s\<lparr>isHittingTarget := False, hitDuration := 0\<rparr>)
       else s)"

text \<open>The body of \<^verbatim>\<open>detectTone\<close> once \<^verbatim>\<open>dominantFrequency\<close> is known.\<close>

definition detectTone_with :: "real \<Rightarrow> int \<Rightarrow> station \<Rightarrow> error + station" where
  "detectTone_with dominantFrequency now s =
    (if dominantFrequency > 0 then
       (if \<not> endlessMode s then
          (case checkTargetHit s dominantFrequency of
             Inl e \<Rightarrow> Inl e
           | Inr isHitting \<Rightarrow> Inr (handleTargetHit isHitting now s))
        else Inr s)
     else Inr s)"

definition detectTone :: "db list \<Rightarrow> real \<Rightarrow> int \<Rightarrow> station \<Rightarrow> error + station" where
  "detectTone bins sampleRate now s =
    detectTone_with (findDominantFrequency bins sampleRate) now s"

text \<open>One frame. The \<^verbatim>\<open>catch\<close> block logs the error and keeps the state as it is:
  the only throwing statement, in \<^verbatim>\<open>checkTargetHit\<close>, comes before any assignment.\<close>

definition visualizationLoop :: "db list \<Rightarrow> real \<Rightarrow> int \<Rightarrow> station \<Rightarrow> station" where
  "visualizationLoop bins sampleRate now s =
    (if \<not> isRecording s then s
     else case detectTone bins sampleRate now s of Inl e \<Rightarrow> s | Inr s' \<Rightarrow> s')"

subsection \<open>Delayed transitions\<close>

definition resetMission :: "station \<Rightarrow> station" where
  "resetMission s =
    updateHitProgress 0
      (s\<lparr>missionCompleted := False, isHittingTarget := False, hitDuration := 0,
         hitStartTime := 0\<rparr>)"

definition nextMission :: "station \<Rightarrow> station" where
  "nextMission s = resetMission (s\<lparr>currentToneIndex := currentToneIndex s + 1\<rparr>)"

definition enterEndlessMode :: "station \<Rightarrow> station" where
  "enterEndlessMode s =
    s\<lparr>endlessMode := True, missionCompleted := False, isHittingTarget := False,
      hitDuration := 0, hitStartTime := 0\<rparr>"

fun runCallback :: "callback \<Rightarrow> station \<Rightarrow> station" where
  "runCallback NextMission s = nextMission s"
| "runCallback EnterEndlessMode s = enterEndlessMode s"

text \<open>The oldest pending timer fires (all delays are equal, so timers fire in the order
  they were set); with none pending nothing happens.\<close>

definition fireTimer :: "station \<Rightarrow> station" where
  "fireTimer s =
    (case timers s of
       [] \<Rightarrow> s
     | (delay, cb) # rest \<Rightarrow> runCallback cb (s\<lparr>timers := rest\<rparr>))"

subsection \<open>Sessions\<close>

text \<open>What can happen to a station: an animation frame with the analyser's data, a click
  on the start/stop button, a pending timer firing.\<close>

datatype event = Frame "db list" real int | Click | Timeout

fun step :: "station \<Rightarrow> event \<Rightarrow> station" where
  "step s (Frame bins sampleRate now) = visualizationLoop bins sampleRate now s"
| "step s Click = toggleRecording s"
| "step s Timeout = fireTimer s"

definition run :: "event list \<Rightarrow> station \<Rightarrow> station" where
  "run es s = foldl step s es"

text \<open>A stream of dominant-frequency samples \<open>(frequency, now)\<close>, one \<^verbatim>\<open>detectTone\<close>
  per sample.\<close>

fun ingest :: "(real \<times> int) list \<Rightarrow> station \<Rightarrow> error + station" where
  "ingest [] s = Inr s"
| "ingest ((f, now) # rest) s =
    (case detectTone_with f now s of Inl e \<Rightarrow> Inl e | Inr s' \<Rightarrow> ingest rest s')"

subsection \<open>Auxiliary notions for the statements\<close>


text \<open>No bin from \<open>i\<close> up to \<open>stop\<close> is greater than \<open>v\<close>; every such bin is smaller
  than \<open>v\<close>.\<close>

definition noneAbove :: "db list \<Rightarrow> nat \<Rightarrow> nat \<Rightarrow> db \<Rightarrow> bool" where
  "noneAbove bins i stop v = (\<forall>j. i \<le> j \<and> j < stop \<longrightarrow> \<not> db_gt (bins ! j) v)"

definition allBelow :: "db list \<Rightarrow> nat \<Rightarrow> nat \<Rightarrow> db \<Rightarrow> bool" where
  "allBelow bins i stop v = (\<forall>j. i \<le> j \<and> j < stop \<longrightarrow> db_gt v (bins ! j))"

text \<open>What the loop started at \<open>i\<close> with the pair \<open>acc\<close> returns: \<open>acc\<close> itself when no
  bin beats it, and otherwise the first of the greatest bins.\<close>

definition loopPost :: "db list \<Rightarrow> nat \<Rightarrow> nat \<Rightarrow> nat \<times> db \<Rightarrow> nat \<times> db \<Rightarrow> bool" where
  "loopPost bins i stop acc r =
    (if noneAbove bins i stop (snd acc) then r = acc
     else i \<le> fst r \<and> fst r < stop \<and> snd r = bins ! fst r \<and> db_gt (snd r) (snd acc)
       \<and> noneAbove bins i stop (snd r) \<and> allBelow bins i (fst r) (snd r))"

text \<open>Two frames of the analyser as the station configures it (\<^verbatim>\<open>fftSize = 4096\<close>, so
  2048 bins): every bin at -100 dB, and the same with bin \<open>k\<close> at -20 dB. At a sample
  rate of 48000 Hz bin \<open>k\<close> is the frequency \<open>k * 48000 / 4096\<close>.\<close>

definition quiet :: "db list" where
  "quiet = replicate 2048 (Finite (- 100))"

definition tone :: "nat \<Rightarrow> db list" where
  "tone k = (replicate 2048 (Finite (- 100)))[k := Finite (- 20)]"

text \<open>The relation between the flags, the counters and the pending timers that every
  state of a session satisfies.\<close>

definition consistent :: "station \<Rightarrow> bool" where
  "consistent s =
    (if endlessMode s then
       timers s = [] \<and> \<not> missionCompleted s \<and> \<not> isHittingTarget s
       \<and> hitDuration s = 0 \<and> hitStartTime s = 0 \<and> completedTones s = length targetTones
     else if missionCompleted s then
       timers s = [(3000, if completedTones s \<ge> length targetTones
                          then EnterEndlessMode else NextMission)]
       \<and> completedTones s = currentToneIndex s + 1 \<and> completedTones s \<le> length targetTones
     else
       timers s = [] \<and> completedTones s = currentToneIndex s
       \<and> completedTones s < length targetTones)"

text \<open>The values of \<^verbatim>\<open>Date.now()\<close> at the frames of a session, in order.\<close>

fun frameTimes :: "event list \<Rightarrow> int list" where
  "frameTimes [] = []"
| "frameTimes (Frame bins sampleRate now # es) = now # frameTimes es"
| "frameTimes (Click # es) = frameTimes es"
| "frameTimes (Timeout # es) = frameTimes es"

text \<open>A session at 48000 Hz: the button is clicked, bin 22 (257.8125 Hz, the target C
  is 261.63 Hz) sounds at \<open>now = 0\<close> and \<open>1500\<close>, and the timer fires; then bin 32
  (375 Hz, for F# at 369.99 Hz); then bin 37 (433.59375 Hz, for A at 440 Hz), whose second
  frame comes 1600 ms after the first.\<close>

definition firstMission :: "event list" where
  "firstMission = [Click, Frame (tone 22) 48000 0, Frame (tone 22) 48000 1500, Timeout]"

definition secondMission :: "event list" where
  "secondMission = [Frame (tone 32) 48000 5000, Frame (tone 32) 48000 6500, Timeout]"

definition thirdMission :: "event list" where
  "thirdMission = [Frame (tone 37) 48000 10000, Frame (tone 37) 48000 11600]"

text \<open>Some states of that session: the first target is being hit; it has just been
  completed by a frame 1600 ms after the first; the third target is current; endless mode
  has been entered.\<close>

definition hitting :: station where
  "hitting = run [Click, Frame (tone 22) 48000 0] initial"

definition completed :: station where
  "completed = run [Click, Frame (tone 22) 48000 0, Frame (tone 22) 48000 1600] initial"

definition atThirdTarget :: station where
  "atThirdTarget = run (firstMission @ secondMission) initial"

definition inEndlessMode :: station where
  "inEndlessMode = run (firstMission @ secondMission @ thirdMission @ [Timeout]) initial"

text \<open>Scenario A of the specification: two samples of 435 Hz, at 0 ms and 1600 ms.\<close>

definition scenarioA :: "(real \<times> int) list" where
  "scenarioA = [(435, 0), (435, 1600)]"

text \<open>The samples that have been ingested by the time \<open>t\<close>: of a stream in the order of
  its timestamps, those with a timestamp up to \<open>t\<close>.\<close>

definition samplesUntil :: "int \<Rightarrow> (real \<times> int) list \<Rightarrow> (real \<times> int) list" where
  "samplesUntil t samples = takeWhile (\<lambda>(f, now). now \<le> t) samples"

text \<open>A sample is a valid frequency within the tolerance of the station's current
  target.\<close>

definition inTolerance :: "station \<Rightarrow> real \<times> int \<Rightarrow> bool" where
  "inTolerance s sample =
    (0 < fst sample
     \<and> \<bar>fst sample - frequency (targetTones ! currentToneIndex s)\<bar> \<le> tolerance)"

text \<open>Relations between a state and a later one: the mission has not moved; the first
  has been completed exactly once, with its one timer set; nothing but the recording fields
  differs.\<close>

definition sameProgress :: "station \<Rightarrow> station \<Rightarrow> bool" where
  "sameProgress s s' =
    (endlessMode s' = endlessMode s \<and> missionCompleted s' = missionCompleted s
     \<and> completedTones s' = completedTones s \<and> currentToneIndex s' = currentToneIndex s
     \<and> timers s' = timers s)"

definition completedOnce :: "station \<Rightarrow> station \<Rightarrow> bool" where
  "completedOnce s s' =
    (stateOf s' = Completed \<and> completedTones s' = completedTones s + 1
     \<and> currentToneIndex s' = currentToneIndex s
     \<and> timers s' = timers s @ [(3000, if completedTones s + 1 \<ge> length targetTones
                                        then EnterEndlessMode else NextMission)])"

definition frozen :: "station \<Rightarrow> station \<Rightarrow> bool" where
  "frozen s s' =
    (sameProgress s s' \<and> isHittingTarget s' = isHittingTarget s
     \<and> hitDuration s' = hitDuration s \<and> hitStartTime s' = hitStartTime s
     \<and> hitProgress s' = hitProgress s)"

text \<open>The invariant behind the progress display: a running hit started no later than
  \<open>t\<close>, and the value last handed to \<^verbatim>\<open>updateHitProgress\<close> fits the state.\<close>

definition progressInv :: "int \<Rightarrow> station \<Rightarrow> bool" where
  "progressInv t s =
    ((if isHittingTarget s then hitStartTime s \<le> t else True)
     \<and> (case stateOf s of
          HittingTarget \<Rightarrow>
            hitProgress s = real_of_int (hitDuration s) / real_of_int requiredHitDuration
            \<and> 0 \<le> hitDuration s \<and> hitDuration s < requiredHitDuration
        | Idle \<Rightarrow> hitProgress s = 0 \<and> hitDuration s = 0
        | Completed \<Rightarrow> True
        | EndlessMode \<Rightarrow> hitDuration s = 0))"


section \<open>The dominant-frequency estimator\<close>

declare findLoop.simps [simp del]

lemma db_gt_trans: "db_gt a b \<Longrightarrow> db_gt b c \<Longrightarrow> db_gt a c"
  by (cases a; cases b; cases c) auto

lemma db_gt_irrefl: "\<not> db_gt a a"
  by (cases a) auto

lemma db_gt_asym: "db_gt a b \<Longrightarrow> \<not> db_gt b a"
  by (cases a; cases b) auto

lemma db_gt_le_trans: "db_gt a b \<Longrightarrow> \<not> db_gt c b \<Longrightarrow> db_gt a c"
  by (cases a; cases b; cases c) auto

lemma db_le_gt_trans: "\<not> db_gt b a \<Longrightarrow> db_gt b c \<Longrightarrow> db_gt a c"
  by (cases a; cases b; cases c) auto

lemma noneAbove_step:
  "i < stop \<Longrightarrow> noneAbove bins i stop v = (\<not> db_gt (bins ! i) v \<and> noneAbove bins (Suc i) stop v)"
  unfolding noneAbove_def
  by (metis Suc_leI le_neq_implies_less Suc_leD order_refl)

lemma noneAbove_done: "\<not> i < stop \<Longrightarrow> noneAbove bins i stop v"
  unfolding noneAbove_def by auto

lemma allBelow_step:
  "i < stop \<Longrightarrow> allBelow bins i stop v = (db_gt v (bins ! i) \<and> allBelow bins (Suc i) stop v)"
  unfolding allBelow_def
  by (metis Suc_leI le_neq_implies_less Suc_leD order_refl)

lemma allBelow_done: "\<not> i < stop \<Longrightarrow> allBelow bins i stop v"
  unfolding allBelow_def by auto

lemma loopPost_step_gt:
  assumes "i < stop" "db_gt (bins ! i) (snd acc)" "loopPost bins (Suc i) stop (i, bins ! i) r"
  shows "loopPost bins i stop acc r"
proof (cases "noneAbove bins (Suc i) stop (bins ! i)")
  case True
  then have r: "r = (i, bins ! i)" using assms(3) by (simp add: loopPost_def)
  show ?thesis
    using assms(1,2) True unfolding loopPost_def r
    by (simp add: noneAbove_step [OF assms(1)] db_gt_irrefl allBelow_done)
next
  case False
  then have p: "Suc i \<le> fst r" "fst r < stop" "snd r = bins ! fst r" "db_gt (snd r) (bins ! i)"
    "noneAbove bins (Suc i) stop (snd r)" "allBelow bins (Suc i) (fst r) (snd r)"
    using assms(3) unfolding loopPost_def by auto
  have a: "db_gt (snd r) (snd acc)" using p(4) assms(2) db_gt_trans by blast
  have b: "noneAbove bins i stop (snd r)"
    using p(4,5) db_gt_asym by (simp add: noneAbove_step [OF assms(1)])
  have c: "allBelow bins i (fst r) (snd r)"
    using p(1,4,6) by (simp add: allBelow_step)
  have "\<not> noneAbove bins i stop (snd acc)"
    using assms(2) by (simp add: noneAbove_step [OF assms(1)])
  then show ?thesis using p(1,2,3) a b c unfolding loopPost_def by simp
qed

lemma loopPost_step_le:
  assumes "i < stop" "\<not> db_gt (bins ! i) (snd acc)" "loopPost bins (Suc i) stop acc r"
  shows "loopPost bins i stop acc r"
proof (cases "noneAbove bins (Suc i) stop (snd acc)")
  case True
  then have r: "r = acc" using assms(3) by (simp add: loopPost_def)
  show ?thesis
    using assms(2) True unfolding loopPost_def r
    by (simp add: noneAbove_step [OF assms(1)])
next
  case False
  then have p: "Suc i \<le> fst r" "fst r < stop" "snd r = bins ! fst r" "db_gt (snd r) (snd acc)"
    "noneAbove bins (Suc i) stop (snd r)" "allBelow bins (Suc i) (fst r) (snd r)"
    using assms(3) unfolding loopPost_def by auto
  have gi: "db_gt (snd r) (bins ! i)" using p(4) assms(2) db_gt_le_trans by blast
  have b: "noneAbove bins i stop (snd r)"
    using p(5) gi db_gt_asym by (simp add: noneAbove_step [OF assms(1)])
  have c: "allBelow bins i (fst r) (snd r)"
    using p(1,6) gi by (simp add: allBelow_step)
  have "\<not> noneAbove bins i stop (snd acc)"
    using False by (simp add: noneAbove_step [OF assms(1)])
  then show ?thesis using p(1,2,3,4) b c unfolding loopPost_def by simp
qed

lemma findLoop_post: "loopPost bins i stop acc (findLoop bins i stop acc)"
proof (induction bins i stop acc rule: findLoop.induct)
  case (1 bins i stop maxIndex maxValue)
  show ?case
  proof (cases "i < stop")
    case True
    note ih = "1.IH" [OF True]
    show ?thesis
    proof (cases "db_gt (bins ! i) maxValue")
      case gt: True
      then have "findLoop bins i stop (maxIndex, maxValue) = findLoop bins (Suc i) stop (i, bins ! i)"
        using True by (subst findLoop.simps) simp
      moreover have "loopPost bins (Suc i) stop (i, bins ! i) (findLoop bins (Suc i) stop (i, bins ! i))"
        using ih gt by simp
      ultimately show ?thesis using loopPost_step_gt [OF True, of bins "(maxIndex, maxValue)"] gt by simp
    next
      case le: False
      then have "findLoop bins i stop (maxIndex, maxValue) = findLoop bins (Suc i) stop (maxIndex, maxValue)"
        using True by (subst findLoop.simps) simp
      moreover have "loopPost bins (Suc i) stop (maxIndex, maxValue) (findLoop bins (Suc i) stop (maxIndex, maxValue))"
        using ih le by simp
      ultimately show ?thesis using loopPost_step_le [OF True, of bins "(maxIndex, maxValue)"] le by simp
    qed
  next
    case False
    then have "findLoop bins i stop (maxIndex, maxValue) = (maxIndex, maxValue)"
      by (subst findLoop.simps) simp
    then show ?thesis using False by (simp add: loopPost_def noneAbove_done)
  qed
qed


lemma findDominantFrequency_none:
  assumes "noneAbove bins (startIndex bins sampleRate)
             (min (endIndex bins sampleRate) (length bins)) (Finite (- 60))"
  shows "findDominantFrequency bins sampleRate = 0"
proof -
  let ?lo = "startIndex bins sampleRate"
  let ?hi = "min (endIndex bins sampleRate) (length bins)"
  let ?r = "findLoop bins ?lo ?hi (0, NegInfinity)"
  have post: "loopPost bins ?lo ?hi (0, NegInfinity) ?r" by (rule findLoop_post)
  have "\<not> db_gt (snd ?r) (Finite (- 60))"
  proof (cases "noneAbove bins ?lo ?hi NegInfinity")
    case True
    then have "?r = (0, NegInfinity)" using post by (simp add: loopPost_def)
    then show ?thesis by simp
  next
    case False
    then have "?lo \<le> fst ?r" "fst ?r < ?hi" "snd ?r = bins ! fst ?r"
      using post unfolding loopPost_def by auto
    then show ?thesis using assms unfolding noneAbove_def by metis
  qed
  then show ?thesis by (simp add: findDominantFrequency_def case_prod_beta)
qed

lemma findDominantFrequency_some:
  assumes "\<not> noneAbove bins (startIndex bins sampleRate)
             (min (endIndex bins sampleRate) (length bins)) (Finite (- 60))"
  shows "\<exists>m. startIndex bins sampleRate \<le> m \<and> m < min (endIndex bins sampleRate) (length bins)
    \<and> db_gt (bins ! m) (Finite (- 60))
    \<and> noneAbove bins (startIndex bins sampleRate)
         (min (endIndex bins sampleRate) (length bins)) (bins ! m)
    \<and> allBelow bins (startIndex bins sampleRate) m (bins ! m)
    \<and> findDominantFrequency bins sampleRate = (real m * sampleRate) / (2 * real (length bins))"
proof -
  let ?lo = "startIndex bins sampleRate"
  let ?hi = "min (endIndex bins sampleRate) (length bins)"
  let ?r = "findLoop bins ?lo ?hi (0, NegInfinity)"
  have post: "loopPost bins ?lo ?hi (0, NegInfinity) ?r" by (rule findLoop_post)
  obtain j where j: "?lo \<le> j" "j < ?hi" "db_gt (bins ! j) (Finite (- 60))"
    using assms unfolding noneAbove_def by blast
  have "db_gt (bins ! j) NegInfinity" using j(3) by (cases "bins ! j") auto
  then have "\<not> noneAbove bins ?lo ?hi NegInfinity"
    using j(1,2) unfolding noneAbove_def by blast
  then have p: "?lo \<le> fst ?r" "fst ?r < ?hi" "snd ?r = bins ! fst ?r"
    "noneAbove bins ?lo ?hi (snd ?r)" "allBelow bins ?lo (fst ?r) (snd ?r)"
    using post unfolding loopPost_def by auto
  have "\<not> db_gt (bins ! j) (snd ?r)" using p(4) j(1,2) unfolding noneAbove_def by blast
  then have g: "db_gt (snd ?r) (Finite (- 60))" using j(3) db_le_gt_trans by blast
  then have "findDominantFrequency bins sampleRate
      = (real (fst ?r) * sampleRate) / (2 * real (length bins))"
    by (simp add: findDominantFrequency_def case_prod_beta)
  then show ?thesis using p g by metis
qed



lemma length_quiet: "length quiet = 2048"
  by (simp add: quiet_def)

lemma length_tone: "length (tone k) = 2048"
  by (simp add: tone_def)

lemma quiet_nth: "i < 2048 \<Longrightarrow> quiet ! i = Finite (- 100)"
  by (simp add: quiet_def)

lemma tone_nth: "i < 2048 \<Longrightarrow> tone k ! i = (if i = k then Finite (- 20) else Finite (- 100))"
  by (simp add: tone_def nth_list_update)

lemma startIndex_48000: "length bins = 2048 \<Longrightarrow> startIndex bins 48000 = 8"
  by (simp add: startIndex_def)

lemma endIndex_48000: "length bins = 2048 \<Longrightarrow> endIndex bins 48000 = 85"
  by (simp add: endIndex_def)


lemma findDominantFrequency_quiet: "findDominantFrequency quiet 48000 = 0"
proof (rule findDominantFrequency_none)
  show "noneAbove quiet (startIndex quiet 48000) (min (endIndex quiet 48000) (length quiet))
          (Finite (- 60))"
    unfolding noneAbove_def
    by (simp add: startIndex_48000 endIndex_48000 length_quiet quiet_nth)
qed

lemma findDominantFrequency_tone:
  assumes "8 \<le> k" "k < 85"
  shows "findDominantFrequency (tone k) 48000 = real k * 375 / 32"
proof -
  have "\<not> noneAbove (tone k) (startIndex (tone k) 48000)
          (min (endIndex (tone k) 48000) (length (tone k))) (Finite (- 60))"
    unfolding noneAbove_def using assms
    by (simp add: startIndex_48000 endIndex_48000 length_tone)
      (rule exI [of _ k], simp add: tone_nth)
  then obtain m where m: "m < min (endIndex (tone k) 48000) (length (tone k))"
    "db_gt (tone k ! m) (Finite (- 60))"
    "findDominantFrequency (tone k) 48000 = (real m * 48000) / (2 * real (length (tone k)))"
    using findDominantFrequency_some by blast
  have "m < 2048" using m(1) by (simp add: length_tone)
  then have "m = k" using m(2) by (simp add: tone_nth split: if_splits)
  then show ?thesis using m(3) by (simp add: length_tone)
qed

section \<open>Sessions: the invariant and some concrete runs\<close>

lemma length_targetTones: "length targetTones = 3"
  by (simp add: targetTones_def)

lemma consistent_initial: "consistent initial"
  by (simp add: consistent_def initial_def targetTones_def)

lemma consistent_handleTargetHit: "consistent s \<Longrightarrow> consistent (handleTargetHit isHitting now s)"
  unfolding consistent_def handleTargetHit_def completeMission_def setTimeout_def
    updateHitProgress_def Let_def length_targetTones
  by (auto split: if_splits)

lemma consistent_detectTone_with:
  "consistent s \<Longrightarrow> detectTone_with f now s = Inr s' \<Longrightarrow> consistent s'"
  unfolding detectTone_with_def
  by (auto split: if_splits sum.splits simp: consistent_handleTargetHit)

lemma consistent_visualizationLoop:
  "consistent s \<Longrightarrow> consistent (visualizationLoop bins sampleRate now s)"
  unfolding visualizationLoop_def detectTone_def
  by (auto split: sum.splits dest: consistent_detectTone_with)

lemma consistent_toggleRecording: "consistent s \<Longrightarrow> consistent (toggleRecording s)"
  unfolding consistent_def toggleRecording_def startRecording_def stopRecording_def
    resetMissionState_def updateHitProgress_def Let_def
  by (auto split: if_splits)

lemma consistent_fireTimer:
  assumes "consistent s"
  shows "consistent (fireTimer s)"
proof (cases "timers s")
  case Nil
  then show ?thesis using assms by (simp add: fireTimer_def)
next
  case (Cons t rest)
  obtain delay cb where t: "t = (delay, cb)" by (cases t)
  show ?thesis
  proof (cases cb)
    case NextMission
    then show ?thesis using assms Cons t
      by (auto simp: consistent_def fireTimer_def nextMission_def resetMission_def
          updateHitProgress_def length_targetTones split: if_splits)
  next
    case EnterEndlessMode
    then show ?thesis using assms Cons t
      by (auto simp: consistent_def fireTimer_def enterEndlessMode_def length_targetTones
          split: if_splits)
  qed
qed

lemma consistent_step: "consistent s \<Longrightarrow> consistent (step s e)"
  by (cases e) (simp_all add: consistent_visualizationLoop consistent_toggleRecording
    consistent_fireTimer)

lemma run_Nil: "run [] s = s"
  by (simp add: run_def)

lemma run_Cons: "run (e # es) s = run es (step s e)"
  by (simp add: run_def)

lemma run_append: "run (es @ es') s = run es' (run es s)"
  by (simp add: run_def)

lemma consistent_run: "consistent s \<Longrightarrow> consistent (run es s)"
  by (induction es arbitrary: s) (simp_all add: run_Nil run_Cons consistent_step)

lemmas station_defs =
  toggleRecording_def startRecording_def stopRecording_def resetMissionState_def
  visualizationLoop_def detectTone_def detectTone_with_def checkTargetHit_def
  handleTargetHit_def completeMission_def setTimeout_def updateHitProgress_def
  fireTimer_def nextMission_def resetMission_def enterEndlessMode_def
  targetTones_def tolerance_def requiredHitDuration_def Let_def

lemma hitting_eq:
  "hitting =
    \<lparr>audioContext = True, isRecording = True, currentToneIndex = 0,
     isHittingTarget = True, hitStartTime = 0, hitDuration = 0,
     missionCompleted = False, completedTones = 0, endlessMode = False,
     hitProgress = 0, timers = []\<rparr>"
  by (simp add: hitting_def run_def initial_def station_defs findDominantFrequency_tone)

lemma completed_eq:
  "completed =
    \<lparr>audioContext = True, isRecording = True, currentToneIndex = 0,
     isHittingTarget = True, hitStartTime = 0, hitDuration = 1600,
     missionCompleted = True, completedTones = 1, endlessMode = False,
     hitProgress = 16 / 15, timers = [(3000, NextMission)]\<rparr>"
  by (simp add: completed_def run_def initial_def station_defs findDominantFrequency_tone)

lemma run_firstMission:
  "run firstMission initial =
    \<lparr>audioContext = True, isRecording = True, currentToneIndex = 1,
     isHittingTarget = False, hitStartTime = 0, hitDuration = 0,
     missionCompleted = False, completedTones = 1, endlessMode = False,
     hitProgress = 0, timers = []\<rparr>"
  by (simp add: firstMission_def run_def initial_def station_defs findDominantFrequency_tone)

lemma atThirdTarget_eq:
  "atThirdTarget =
    \<lparr>audioContext = True, isRecording = True, currentToneIndex = 2,
     isHittingTarget = False, hitStartTime = 0, hitDuration = 0,
     missionCompleted = False, completedTones = 2, endlessMode = False,
     hitProgress = 0, timers = []\<rparr>"
  unfolding atThirdTarget_def run_append run_firstMission
  by (simp add: secondMission_def run_def station_defs findDominantFrequency_tone)

lemma run_thirdMission:
  "run thirdMission atThirdTarget =
    \<lparr>audioContext = True, isRecording = True, currentToneIndex = 2,
     isHittingTarget = True, hitStartTime = 10000, hitDuration = 1600,
     missionCompleted = True, completedTones = 3, endlessMode = False,
     hitProgress = 16 / 15, timers = [(3000, EnterEndlessMode)]\<rparr>"
  unfolding atThirdTarget_eq
  by (simp add: thirdMission_def run_def station_defs findDominantFrequency_tone)

lemma inEndlessMode_eq:
  "inEndlessMode =
    \<lparr>audioContext = True, isRecording = True, currentToneIndex = 2,
     isHittingTarget = False, hitStartTime = 0, hitDuration = 0,
     missionCompleted = False, completedTones = 3, endlessMode = True,
     hitProgress = 16 / 15, timers = []\<rparr>"
proof -
  have "inEndlessMode = run [Timeout] (run thirdMission atThirdTarget)"
    by (simp add: inEndlessMode_def atThirdTarget_def run_def)
  then show ?thesis unfolding run_thirdMission
    by (simp add: run_def station_defs)
qed

lemma run_thirdMission_reached:
  "run thirdMission atThirdTarget = run (firstMission @ secondMission @ thirdMission) initial"
  by (simp add: atThirdTarget_def run_def)



section \<open>Streams of samples\<close>

lemma ingest_append:
  "ingest (xs @ ys) s = (case ingest xs s of Inl e \<Rightarrow> Inl e | Inr s' \<Rightarrow> ingest ys s')"
  by (induction xs arbitrary: s) (auto split: sum.splits)

lemma completed_sample:
  assumes "\<not> endlessMode s" "missionCompleted s" "currentToneIndex s < length targetTones"
  shows "\<exists>s'. detectTone_with f now s = Inr s' \<and> sameProgress s s'"
  using assms
  by (simp add: detectTone_with_def checkTargetHit_def handleTargetHit_def updateHitProgress_def
      sameProgress_def)

lemma completed_ingest:
  assumes "\<not> endlessMode s" "missionCompleted s" "currentToneIndex s < length targetTones"
  shows "\<exists>s'. ingest samples s = Inr s' \<and> sameProgress s s'"
  using assms
proof (induction samples arbitrary: s)
  case Nil
  then show ?case by (simp add: sameProgress_def)
next
  case (Cons x xs)
  obtain f now where x: "x = (f, now)" by (cases x)
  obtain s1 where s1: "detectTone_with f now s = Inr s1" "sameProgress s s1"
    using completed_sample [OF Cons.prems] by blast
  then have "\<not> endlessMode s1" "missionCompleted s1" "currentToneIndex s1 < length targetTones"
    using Cons.prems by (simp_all add: sameProgress_def)
  then obtain s' where "ingest xs s1 = Inr s'" "sameProgress s1 s'"
    using Cons.IH by blast
  then show ?case using s1 x by (auto simp: sameProgress_def)
qed

lemma hitting_ingest:
  assumes "\<not> endlessMode s" "\<not> missionCompleted s" "isHittingTarget s"
    "currentToneIndex s < length targetTones"
    "\<forall>x \<in> set samples. inTolerance s x"
    "(f1, t1) \<in> set samples" "requiredHitDuration \<le> t1 - hitStartTime s"
  shows "\<exists>s'. ingest samples s = Inr s' \<and> completedOnce s s'"
  using assms
proof (induction samples arbitrary: s)
  case Nil
  then show ?case by simp
next
  case (Cons x xs)
  obtain f now where x: "x = (f, now)" by (cases x)
  have hit: "checkTargetHit s f = Inr True"
    using Cons.prems(1,4,5) x by (simp add: checkTargetHit_def inTolerance_def)
  have f: "0 < f" using Cons.prems(5) x by (simp add: inTolerance_def)
  show ?case
  proof (cases "requiredHitDuration \<le> now - hitStartTime s")
    case True
    let ?s1 = "completeMission (s\<lparr>hitDuration := now - hitStartTime s,
      hitProgress := real_of_int (now - hitStartTime s) / real_of_int requiredHitDuration\<rparr>)"
    have s1: "detectTone_with f now s = Inr ?s1"
      using Cons.prems(1,2,3) hit f True
      by (simp add: detectTone_with_def handleTargetHit_def updateHitProgress_def Let_def)
    have c1: "completedOnce s ?s1" "\<not> endlessMode ?s1" "missionCompleted ?s1"
      "currentToneIndex ?s1 < length targetTones"
      using Cons.prems(1,2,4)
      by (simp_all add: completedOnce_def completeMission_def setTimeout_def stateOf_def Let_def)
    obtain s' where s': "ingest xs ?s1 = Inr s'" "sameProgress ?s1 s'"
      using completed_ingest [OF c1(2,3,4)] by blast
    have "completedOnce s s'"
      using c1(1) s'(2) by (auto simp: completedOnce_def sameProgress_def stateOf_def split: if_splits)
    then show ?thesis using s1 s'(1) x by auto
  next
    case False
    let ?s1 = "s\<lparr>hitDuration := now - hitStartTime s,
      hitProgress := real_of_int (now - hitStartTime s) / real_of_int requiredHitDuration\<rparr>"
    have s1: "detectTone_with f now s = Inr ?s1"
      using Cons.prems(1,2,3) hit f False
      by (simp add: detectTone_with_def handleTargetHit_def updateHitProgress_def Let_def)
    have "(f1, t1) \<noteq> x" using False Cons.prems(7) x by auto
    then have mem: "(f1, t1) \<in> set xs" using Cons.prems(6) by auto
    have "\<exists>s'. ingest xs ?s1 = Inr s' \<and> completedOnce ?s1 s'"
      using Cons.prems(1,2,3,4,5,7) mem
      by (intro Cons.IH) (simp_all add: inTolerance_def)
    then obtain s' where s': "ingest xs ?s1 = Inr s'" "completedOnce ?s1 s'" by blast
    have "completedOnce s s'" using s'(2) by (simp add: completedOnce_def)
    then show ?thesis using s1 s'(1) x by auto
  qed
qed


section \<open>Steps of a session\<close>

lemma completedTones_step:
  "completedTones s \<le> completedTones (step s e)
   \<and> completedTones (step s e) \<le> completedTones s + 1"
proof (cases e)
  case (Frame bins sampleRate now)
  then show ?thesis
    by (auto simp: visualizationLoop_def detectTone_def detectTone_with_def checkTargetHit_def
        handleTargetHit_def completeMission_def setTimeout_def updateHitProgress_def Let_def
        split: if_splits)
next
  case Click
  then show ?thesis
    by (simp add: toggleRecording_def startRecording_def stopRecording_def
        resetMissionState_def updateHitProgress_def Let_def)
next
  case Timeout
  show ?thesis
  proof (cases "timers s")
    case Nil
    then show ?thesis using Timeout by (simp add: fireTimer_def)
  next
    case (Cons t rest)
    obtain delay cb where "t = (delay, cb)" by (cases t)
    then show ?thesis using Timeout Cons
      by (cases cb) (simp_all add: fireTimer_def nextMission_def resetMission_def
          enterEndlessMode_def updateHitProgress_def)
  qed
qed

lemma completedTones_changed:
  assumes "completedTones (step s e) \<noteq> completedTones s"
  shows "missionCompleted (step s e) \<and> \<not> endlessMode (step s e)"
proof (cases e)
  case (Frame bins sampleRate now)
  then show ?thesis using assms
    by (auto simp: visualizationLoop_def detectTone_def detectTone_with_def checkTargetHit_def
        handleTargetHit_def completeMission_def setTimeout_def updateHitProgress_def Let_def
        split: if_splits)
next
  case Click
  then show ?thesis using assms
    by (simp add: toggleRecording_def startRecording_def stopRecording_def
        resetMissionState_def updateHitProgress_def Let_def split: if_splits)
next
  case Timeout
  show ?thesis
  proof (cases "timers s")
    case Nil
    then show ?thesis using Timeout assms by (simp add: fireTimer_def)
  next
    case (Cons t rest)
    obtain delay cb where "t = (delay, cb)" by (cases t)
    then show ?thesis using Timeout Cons assms
      by (cases cb) (simp_all add: fireTimer_def nextMission_def resetMission_def
          enterEndlessMode_def updateHitProgress_def)
  qed
qed

lemma completed_entered:
  assumes "\<not> missionCompleted s" "missionCompleted (step s e)"
  shows "completedTones (step s e) = completedTones s + 1"
proof (cases e)
  case (Frame bins sampleRate now)
  then show ?thesis using assms
    by (auto simp: visualizationLoop_def detectTone_def detectTone_with_def checkTargetHit_def
        handleTargetHit_def completeMission_def setTimeout_def updateHitProgress_def Let_def
        split: if_splits)
next
  case Click
  then show ?thesis using assms
    by (simp add: toggleRecording_def startRecording_def stopRecording_def
        resetMissionState_def updateHitProgress_def Let_def split: if_splits)
next
  case Timeout
  show ?thesis
  proof (cases "timers s")
    case Nil
    then show ?thesis using Timeout assms by (simp add: fireTimer_def)
  next
    case (Cons t rest)
    obtain delay cb where "t = (delay, cb)" by (cases t)
    then show ?thesis using Timeout Cons assms
      by (cases cb) (simp_all add: fireTimer_def nextMission_def resetMission_def
          enterEndlessMode_def updateHitProgress_def)
  qed
qed

lemma endlessMode_entered:
  assumes "endlessMode (step s e)" "\<not> endlessMode s"
  shows "e = Timeout \<and> (\<exists>delay rest. timers s = (delay, EnterEndlessMode) # rest)"
proof (cases e)
  case (Frame bins sampleRate now)
  then show ?thesis using assms
    by (auto simp: visualizationLoop_def detectTone_def detectTone_with_def checkTargetHit_def
        handleTargetHit_def completeMission_def setTimeout_def updateHitProgress_def Let_def
        split: if_splits)
next
  case Click
  then show ?thesis using assms
    by (simp add: toggleRecording_def startRecording_def stopRecording_def
        resetMissionState_def updateHitProgress_def Let_def split: if_splits)
next
  case Timeout
  show ?thesis
  proof (cases "timers s")
    case Nil
    then show ?thesis using Timeout assms by (simp add: fireTimer_def)
  next
    case (Cons t rest)
    obtain delay cb where "t = (delay, cb)" by (cases t)
    then show ?thesis using Timeout Cons assms
      by (cases cb) (simp_all add: fireTimer_def nextMission_def resetMission_def
          enterEndlessMode_def updateHitProgress_def)
  qed
qed

lemma timeout_completed:
  assumes "consistent s" "\<not> endlessMode s" "missionCompleted s"
  shows "completedTones (fireTimer s) = completedTones s
    \<and> (if completedTones s = length targetTones
        then stateOf (fireTimer s) = EndlessMode
          \<and> currentToneIndex (fireTimer s) = currentToneIndex s
        else stateOf (fireTimer s) = Idle
          \<and> currentToneIndex (fireTimer s) = currentToneIndex s + 1)"
  using assms
  by (auto simp: consistent_def fireTimer_def nextMission_def resetMission_def
      enterEndlessMode_def updateHitProgress_def stateOf_def length_targetTones
      split: if_splits)

lemma frozen_step:
  assumes "consistent s" "endlessMode s"
  shows "frozen s (step s e)"
proof (cases e)
  case (Frame bins sampleRate now)
  then show ?thesis using assms(2)
    by (simp add: visualizationLoop_def detectTone_def detectTone_with_def frozen_def
        sameProgress_def)
next
  case Click
  then show ?thesis using assms(2)
    by (simp add: toggleRecording_def startRecording_def stopRecording_def Let_def frozen_def
        sameProgress_def)
next
  case Timeout
  then show ?thesis using assms
    by (simp add: consistent_def fireTimer_def frozen_def sameProgress_def)
qed

lemma frozen_run:
  assumes "consistent s" "endlessMode s"
  shows "frozen s (run es s)"
  using assms
proof (induction es arbitrary: s)
  case Nil
  then show ?case by (simp add: run_Nil frozen_def sameProgress_def)
next
  case (Cons e es)
  have f: "frozen s (step s e)" using frozen_step [OF Cons.prems] .
  then have "endlessMode (step s e)" using Cons.prems(2) by (simp add: frozen_def sameProgress_def)
  then have "frozen (step s e) (run es (step s e))"
    using Cons.IH consistent_step [OF Cons.prems(1)] by simp
  then show ?case using f by (simp add: run_Cons frozen_def sameProgress_def)
qed


section \<open>The progress display\<close>

lemma progressInv_later: "progressInv t s \<Longrightarrow> t \<le> t' \<Longrightarrow> progressInv t' s"
  by (auto simp: progressInv_def split: if_splits)

lemma progressInv_handleTargetHit:
  assumes "progressInv t s" "t \<le> now"
  shows "progressInv now (handleTargetHit isHitting now s)"
  using assms
  by (auto simp: progressInv_def handleTargetHit_def completeMission_def setTimeout_def
      updateHitProgress_def stateOf_def Let_def split: if_splits)

lemma progressInv_frame:
  assumes "progressInv t s" "t \<le> now"
  shows "progressInv now (step s (Frame bins sampleRate now))"
proof -
  have same: "progressInv now s" using assms by (rule progressInv_later)
  show ?thesis
    using same progressInv_handleTargetHit [OF assms]
    by (auto simp: visualizationLoop_def detectTone_def detectTone_with_def
        split: sum.splits if_splits)
qed

lemma progressInv_toggleRecording: "progressInv t s \<Longrightarrow> progressInv t (toggleRecording s)"
  by (auto simp: progressInv_def toggleRecording_def startRecording_def stopRecording_def
      resetMissionState_def updateHitProgress_def stateOf_def Let_def split: if_splits)

lemma progressInv_fireTimer:
  assumes "progressInv t s"
  shows "progressInv t (fireTimer s)"
proof (cases "timers s")
  case Nil
  then show ?thesis using assms by (simp add: fireTimer_def)
next
  case (Cons x rest)
  obtain delay cb where x: "x = (delay, cb)" by (cases x)
  show ?thesis
  proof (cases cb)
    case NextMission
    then show ?thesis using Cons x
      by (simp add: progressInv_def fireTimer_def nextMission_def resetMission_def
          updateHitProgress_def stateOf_def)
  next
    case EnterEndlessMode
    then show ?thesis using Cons x
      by (simp add: progressInv_def fireTimer_def enterEndlessMode_def stateOf_def)
  qed
qed

lemma progressInv_run:
  assumes "progressInv t s" "sorted (t # frameTimes es)"
  shows "\<exists>t'. progressInv t' (run es s)"
  using assms
proof (induction es arbitrary: s t)
  case Nil
  then show ?case by (auto simp: run_Nil)
next
  case (Cons e es)
  show ?case
  proof (cases e)
    case (Frame bins sampleRate now)
    then have "t \<le> now" "sorted (now # frameTimes es)" using Cons.prems(2) by simp_all
    then show ?thesis
      using Cons.IH [of now "step s e"] progressInv_frame [OF Cons.prems(1)] Frame
      by (simp add: run_Cons)
  next
    case Click
    then show ?thesis
      using Cons.IH [of t "step s e"] Cons.prems progressInv_toggleRecording
      by (simp add: run_Cons)
  next
    case Timeout
    then show ?thesis
      using Cons.IH [of t "step s e"] Cons.prems progressInv_fireTimer
      by (simp add: run_Cons)
  qed
qed

lemma progressInv_initial: "progressInv t initial"
  by (simp add: progressInv_def initial_def stateOf_def)


section \<open>Claims\<close>

text \<open>
  C1 (amended). A frame without signal leaves the station as it is: \<^verbatim>\<open>detectTone\<close>
  does nothing when the dominant frequency is 0, so a station that is hitting its target
  keeps hitting it, with its hit window untouched. The same holds for the whole frame
  (\<^verbatim>\<open>visualizationLoop\<close>).
\<close>

theorem no_signal_unchanged:
  "detectTone_with 0 now s = Inr s
   \<and> (findDominantFrequency bins sampleRate = 0 \<longrightarrow>
        detectTone bins sampleRate now s = Inr s
        \<and> visualizationLoop bins sampleRate now s = s)"
  by (simp add: detectTone_with_def detectTone_def visualizationLoop_def)

text \<open>
  C1, witness: while the first target is being hit, a frame of 2048 bins at -100 dB
  changes nothing.
\<close>

theorem no_signal_unchanged_witness:
  "findDominantFrequency quiet 48000 = 0
   \<and> detectTone quiet 48000 16 hitting = Inr hitting
   \<and> visualizationLoop quiet 48000 16 hitting = hitting
   \<and> isHittingTarget hitting"
  using no_signal_unchanged [of 16 hitting quiet 48000]
  by (simp add: findDominantFrequency_quiet hitting_eq)

text \<open>
  C1, counterexample to the claim as stated (a frame without signal returns a hitting
  station to idle and resets the hold window): the station is hitting the first target
  since \<open>now = 0\<close>; the silent frame at \<open>now = 16\<close> leaves it as it is, in
  HittingTarget, and a frame on target at \<open>now = 1500\<close> then completes the mission,
  the silence counted as hold time.
\<close>

theorem no_signal_counterexample:
  "stateOf hitting = HittingTarget
   \<and> findDominantFrequency quiet 48000 = 0
   \<and> step hitting (Frame quiet 48000 16) = hitting
   \<and> stateOf (step hitting (Frame quiet 48000 16)) = HittingTarget
   \<and> stateOf (run [Frame quiet 48000 16, Frame (tone 22) 48000 1500] hitting) = Completed"
  by (simp add: hitting_eq stateOf_def run_def station_defs findDominantFrequency_quiet
      findDominantFrequency_tone)

text \<open>
  C2. A valid frequency outside the tolerance of the current target, ingested while the
  station is hitting the target, returns the station to idle with a hold duration of 0
  (and a progress display of 0); no other field changes.
\<close>

theorem out_of_tolerance_resets:
  assumes "stateOf s = HittingTarget" and "currentToneIndex s < length targetTones"
    and "0 < f" and "tolerance < \<bar>f - frequency (targetTones ! currentToneIndex s)\<bar>"
  shows "detectTone_with f now s = Inr (s\<lparr>isHittingTarget := False, hitDuration := 0, hitProgress := 0\<rparr>)
    \<and> stateOf (s\<lparr>isHittingTarget := False, hitDuration := 0, hitProgress := 0\<rparr>) = Idle"
proof -
  have flags: "\<not> endlessMode s" "\<not> missionCompleted s" "isHittingTarget s"
    using assms(1) by (auto simp: stateOf_def split: if_splits)
  have "checkTargetHit s f = Inr False"
    using flags(1) assms(2,4) by (simp add: checkTargetHit_def)
  then show ?thesis
    using flags assms(3)
    by (simp add: detectTone_with_def handleTargetHit_def updateHitProgress_def stateOf_def)
qed

text \<open>
  C2, witness: while the first target (261.63 Hz) is being hit, a sample of 200 Hz, and
  likewise a frame whose loudest bin is bin 60 (703.125 Hz), make the station idle.
\<close>

theorem out_of_tolerance_resets_witness:
  "stateOf hitting = HittingTarget \<and> currentToneIndex hitting < length targetTones
   \<and> (0 :: real) < 200 \<and> tolerance < \<bar>200 - frequency (targetTones ! currentToneIndex hitting)\<bar>
   \<and> detectTone_with 200 800 hitting = Inr (hitting\<lparr>isHittingTarget := False\<rparr>)
   \<and> stateOf (hitting\<lparr>isHittingTarget := False\<rparr>) = Idle
   \<and> detectTone (tone 60) 48000 800 hitting = Inr (hitting\<lparr>isHittingTarget := False\<rparr>)"
  using out_of_tolerance_resets [of hitting 200 800]
    out_of_tolerance_resets [of hitting "findDominantFrequency (tone 60) 48000" 800]
  by (simp add: hitting_eq stateOf_def targetTones_def tolerance_def detectTone_def
      findDominantFrequency_tone)

text \<open>
  C3 (amended). Completion is detected when a sample is ingested. An in-tolerance sample
  at time \<open>now\<close>, in a station that is neither completed nor in endless mode, sets the
  hold duration to \<open>now\<close> minus the hit start (which is \<open>now\<close> itself when no hit was
  running); after it the station is Completed exactly when that duration is at least
  1500 ms, and HittingTarget exactly when it is less. The count of completed tones grows
  by one in the first case only.
\<close>

theorem completion_at_sample:
  assumes "\<not> endlessMode s" and "\<not> missionCompleted s"
    and "currentToneIndex s < length targetTones"
    and "0 < f" and "\<bar>f - frequency (targetTones ! currentToneIndex s)\<bar> \<le> tolerance"
  shows "detectTone_with f now s = Inr (handleTargetHit True now s)
    \<and> hitStartTime (handleTargetHit True now s)
        = (if isHittingTarget s then hitStartTime s else now)
    \<and> hitDuration (handleTargetHit True now s)
        = now - hitStartTime (handleTargetHit True now s)
    \<and> (stateOf (handleTargetHit True now s) = Completed)
        = (requiredHitDuration \<le> hitDuration (handleTargetHit True now s))
    \<and> (stateOf (handleTargetHit True now s) = HittingTarget)
        = (hitDuration (handleTargetHit True now s) < requiredHitDuration)
    \<and> completedTones (handleTargetHit True now s)
        = (if requiredHitDuration \<le> hitDuration (handleTargetHit True now s)
           then completedTones s + 1 else completedTones s)"
proof -
  have hit: "checkTargetHit s f = Inr True"
    using assms(1,3,5) by (simp add: checkTargetHit_def)
  show ?thesis
    using assms(1,2,4) hit
    by (simp add: detectTone_with_def handleTargetHit_def completeMission_def setTimeout_def
        updateHitProgress_def stateOf_def Let_def)
qed

text \<open>
  C3, witness: scenario A at the target A (440 Hz). The sample at 0 ms starts the hit; a
  sample at 1499 ms would leave the station hitting; the sample at 1600 ms completes the
  mission, with a hold duration of 1600 ms.
\<close>

theorem completion_at_sample_witness:
  "\<not> endlessMode atThirdTarget \<and> \<not> missionCompleted atThirdTarget
   \<and> currentToneIndex atThirdTarget < length targetTones \<and> (0 :: real) < 435
   \<and> \<bar>435 - frequency (targetTones ! currentToneIndex atThirdTarget)\<bar> \<le> tolerance
   \<and> detectTone_with 435 0 atThirdTarget = Inr (atThirdTarget\<lparr>isHittingTarget := True\<rparr>)
   \<and> stateOf (handleTargetHit True 1499 (atThirdTarget\<lparr>isHittingTarget := True\<rparr>))
       = HittingTarget
   \<and> stateOf (handleTargetHit True 1600 (atThirdTarget\<lparr>isHittingTarget := True\<rparr>))
       = Completed
   \<and> hitDuration (handleTargetHit True 1600 (atThirdTarget\<lparr>isHittingTarget := True\<rparr>))
       = 1600"
  using completion_at_sample [of atThirdTarget 435 0]
    completion_at_sample [of "atThirdTarget\<lparr>isHittingTarget := True\<rparr>" 435 1499]
    completion_at_sample [of "atThirdTarget\<lparr>isHittingTarget := True\<rparr>" 435 1600]
  by (simp add: atThirdTarget_eq station_defs)

text \<open>
  C3, counterexample to the claim as stated (in scenario A, Completed fires by
  t = 1500 ms): the only sample ingested by t = 1500 is the one at t = 0, after which the
  station is HittingTarget, not Completed; the mission completes on the sample at
  t = 1600, with a hold duration of 1600 ms.
\<close>

theorem scenarioA_counterexample:
  "samplesUntil 1500 scenarioA = [(435, 0)]
   \<and> ingest (samplesUntil 1500 scenarioA) atThirdTarget
       = Inr (atThirdTarget\<lparr>isHittingTarget := True\<rparr>)
   \<and> stateOf (atThirdTarget\<lparr>isHittingTarget := True\<rparr>) = HittingTarget
   \<and> ingest scenarioA atThirdTarget
       = Inr (atThirdTarget\<lparr>isHittingTarget := True, hitDuration := 1600,
           hitProgress := 16 / 15, missionCompleted := True, completedTones := 3,
           timers := [(3000, EnterEndlessMode)]\<rparr>)"
  by (simp add: samplesUntil_def scenarioA_def atThirdTarget_eq stateOf_def station_defs)

text \<open>
  C4. Take a station that is idle, or that has been hitting its target since no later than
  the first sample; let every sample of a stream be valid and within tolerance of the
  current target, and let one of them come at least 1500 ms after the first. Then the
  stream completes the mission exactly once, whatever samples follow it: at the end the
  station is Completed, the count of completed tones has grown by one, the target index
  is the same and exactly one timer has been added.
\<close>

theorem completes_exactly_once:
  assumes "stateOf s = Idle \<or> stateOf s = HittingTarget \<and> hitStartTime s \<le> t0"
    and "currentToneIndex s < length targetTones"
    and "\<forall>x \<in> set ((f0, t0) # samples). inTolerance s x"
    and "(f1, t1) \<in> set samples" and "requiredHitDuration \<le> t1 - t0"
  shows "\<exists>s'. ingest ((f0, t0) # samples @ later) s = Inr s' \<and> completedOnce s s'"
proof -
  have flags: "\<not> endlessMode s" "\<not> missionCompleted s"
    using assms(1) by (auto simp: stateOf_def split: if_splits)
  have "\<exists>s1. ingest ((f0, t0) # samples) s = Inr s1 \<and> completedOnce s s1"
  proof (cases "isHittingTarget s")
    case True
    then have "hitStartTime s \<le> t0" using assms(1) by (auto simp: stateOf_def split: if_splits)
    then have "requiredHitDuration \<le> t1 - hitStartTime s" using assms(5) by linarith
    moreover have "(f1, t1) \<in> set ((f0, t0) # samples)" using assms(4) by simp
    ultimately show ?thesis using hitting_ingest [OF flags True assms(2,3)] by blast
  next
    case False
    let ?s0 = "s\<lparr>isHittingTarget := True, hitStartTime := t0, hitDuration := 0, hitProgress := 0\<rparr>"
    have "checkTargetHit s f0 = Inr True" "0 < f0"
      using flags(1) assms(2,3) by (simp_all add: checkTargetHit_def inTolerance_def)
    then have s0: "detectTone_with f0 t0 s = Inr ?s0"
      using flags False
      by (simp add: detectTone_with_def handleTargetHit_def updateHitProgress_def Let_def
          requiredHitDuration_def)
    have "\<exists>s'. ingest samples ?s0 = Inr s' \<and> completedOnce ?s0 s'"
      using flags assms(2,3,4,5)
      by (intro hitting_ingest [where ?f1.0 = f1 and ?t1.0 = t1]) (simp_all add: inTolerance_def)
    then obtain s1 where s1: "ingest samples ?s0 = Inr s1" "completedOnce ?s0 s1" by blast
    have "completedOnce s s1" using s1(2) by (simp add: completedOnce_def)
    then show ?thesis using s0 s1(1) by simp
  qed
  then obtain s1 where s1: "ingest ((f0, t0) # samples) s = Inr s1" "completedOnce s s1" by blast
  have c: "\<not> endlessMode s1" "missionCompleted s1" "currentToneIndex s1 < length targetTones"
    using s1(2) assms(2) by (auto simp: completedOnce_def stateOf_def split: if_splits)
  obtain s' where s': "ingest later s1 = Inr s'" "sameProgress s1 s'"
    using completed_ingest [OF c] by blast
  have "completedOnce s s'"
    using s1(2) s'(2) by (auto simp: completedOnce_def sameProgress_def stateOf_def split: if_splits)
  moreover have "ingest ((f0, t0) # samples @ later) s = Inr s'"
    using s1(1) s'(1) ingest_append [of "(f0, t0) # samples" later s] by simp
  ultimately show ?thesis by blast
qed

text \<open>
  C4, witness: at the target A, four samples on target over 1600 ms, then one off target
  and two on target again: one completion, the third.
\<close>

theorem completes_exactly_once_witness:
  "\<exists>s'. ingest ((435, 0) # [(441, 16), (450, 900), (435, 1600)] @ [(300, 1616), (435, 1632),
            (435, 3200)]) atThirdTarget = Inr s'
     \<and> stateOf s' = Completed \<and> completedTones s' = 3 \<and> currentToneIndex s' = 2
     \<and> timers s' = [(3000, EnterEndlessMode)]"
proof -
  have idle: "stateOf atThirdTarget = Idle
      \<or> stateOf atThirdTarget = HittingTarget \<and> hitStartTime atThirdTarget \<le> 0"
    by (simp add: atThirdTarget_eq stateOf_def)
  have index: "currentToneIndex atThirdTarget < length targetTones"
    by (simp add: atThirdTarget_eq targetTones_def)
  have tol: "\<forall>x \<in> set ((435, 0) # [(441, 16), (450, 900), (435, 1600)]).
      inTolerance atThirdTarget x"
    by (simp add: inTolerance_def atThirdTarget_eq targetTones_def tolerance_def)
  have mem: "(435, 1600) \<in> set [(441 :: real, 16 :: int), (450, 900), (435, 1600)]"
    by simp
  have held: "requiredHitDuration \<le> 1600 - 0"
    by (simp add: requiredHitDuration_def)
  show ?thesis
    using completes_exactly_once [OF idle index tol mem held,
        of "[(300, 1616), (435, 1632), (435, 3200)]"]
    by (simp add: completedOnce_def atThirdTarget_eq targetTones_def)
qed

text \<open>
  C5. Outside endless mode, with a current target, a sample of frequency \<open>f\<close> is a hit
  if and only if \<open>f\<close> differs from the target's frequency by at most 40 Hz; a difference
  of exactly 40 Hz, above or below, is a hit.
\<close>

theorem checkTargetHit_inclusive:
  assumes "\<not> endlessMode s" and "currentToneIndex s < length targetTones"
  shows "checkTargetHit s f = Inr (\<bar>f - frequency (targetTones ! currentToneIndex s)\<bar> \<le> 40)
    \<and> checkTargetHit s (frequency (targetTones ! currentToneIndex s) + 40) = Inr True
    \<and> checkTargetHit s (frequency (targetTones ! currentToneIndex s) - 40) = Inr True"
  using assms by (simp add: checkTargetHit_def tolerance_def)

text \<open>
  C5, witness: at the target A (440 Hz), 480 Hz and 400 Hz are hits, 480.01 Hz and
  399.99 Hz are not.
\<close>

theorem checkTargetHit_inclusive_witness:
  "\<not> endlessMode atThirdTarget \<and> currentToneIndex atThirdTarget < length targetTones
   \<and> checkTargetHit atThirdTarget 480 = Inr True
   \<and> checkTargetHit atThirdTarget (48001 / 100) = Inr False
   \<and> checkTargetHit atThirdTarget 400 = Inr True
   \<and> checkTargetHit atThirdTarget (39999 / 100) = Inr False"
  using checkTargetHit_inclusive [of atThirdTarget 480]
    checkTargetHit_inclusive [of atThirdTarget "48001 / 100"]
    checkTargetHit_inclusive [of atThirdTarget 400]
    checkTargetHit_inclusive [of atThirdTarget "39999 / 100"]
  by (simp add: atThirdTarget_eq targetTones_def)

text \<open>
  C6. In every state of a session, a step leaves the count of completed tones as it is or
  adds one to it, and the count never exceeds the number of targets, 3. The count grows
  exactly when a mission is completed: a step that adds one takes the station from a state
  other than Completed to Completed, and every step that takes it to Completed from
  another state adds one. After such a step the one pending timer, of 3000 ms, is the entry
  into endless mode if the count has reached 3, and the advance to the next target
  otherwise. Endless mode is only ever entered by a timer firing in a Completed station
  whose count is 3; a timer firing at a lower count makes the station idle at the next
  target.
\<close>

theorem completedTones_progress:
  assumes "s = run es initial" and "s' = step s e"
  shows "completedTones s \<le> completedTones s' \<and> completedTones s' \<le> completedTones s + 1
    \<and> completedTones s' \<le> length targetTones \<and> length targetTones = 3
    \<and> (completedTones s' = completedTones s + 1 \<longrightarrow>
          stateOf s \<noteq> Completed \<and> stateOf s' = Completed
          \<and> timers s' = [(3000, if completedTones s' = length targetTones
                                 then EnterEndlessMode else NextMission)])
    \<and> (stateOf s \<noteq> Completed \<and> stateOf s' = Completed \<longrightarrow>
          completedTones s' = completedTones s + 1)
    \<and> (stateOf s' = EndlessMode \<and> stateOf s \<noteq> EndlessMode \<longrightarrow>
          e = Timeout \<and> stateOf s = Completed \<and> completedTones s = length targetTones)
    \<and> (e = Timeout \<and> stateOf s = Completed \<longrightarrow>
          completedTones s' = completedTones s
          \<and> (if completedTones s = length targetTones
              then stateOf s' = EndlessMode \<and> currentToneIndex s' = currentToneIndex s
              else stateOf s' = Idle \<and> currentToneIndex s' = currentToneIndex s + 1))"
proof -
  have cs: "consistent s" using assms(1) consistent_initial consistent_run by simp
  have cs': "consistent s'" using assms(2) cs consistent_step by simp
  have bound: "completedTones s' \<le> length targetTones"
    using cs' by (auto simp: consistent_def split: if_splits)
  have mono: "completedTones s \<le> completedTones s'" "completedTones s' \<le> completedTones s + 1"
    using completedTones_step [of s e] assms(2) by simp_all
  have inc: "stateOf s \<noteq> Completed \<and> stateOf s' = Completed
      \<and> timers s' = [(3000, if completedTones s' = length targetTones
                             then EnterEndlessMode else NextMission)]"
    if grew: "completedTones s' = completedTones s + 1"
  proof -
    have now: "missionCompleted s' \<and> \<not> endlessMode s'"
      using completedTones_changed [of s e] grew assms(2) by simp
    have "stateOf s \<noteq> Completed"
    proof
      assume "stateOf s = Completed"
      then have "\<not> endlessMode s" "missionCompleted s"
        by (auto simp: stateOf_def split: if_splits)
      then have "completedTones s = currentToneIndex s + 1"
        "completedTones s' = currentToneIndex s' + 1"
        using cs cs' now by (auto simp: consistent_def split: if_splits)
      moreover have "sameProgress s s' \<or> \<not> missionCompleted s' \<or> endlessMode s'"
      proof (cases e)
        case (Frame bins sampleRate now)
        then show ?thesis using assms(2) \<open>missionCompleted s\<close>
          by (auto simp: visualizationLoop_def detectTone_def detectTone_with_def
              checkTargetHit_def handleTargetHit_def updateHitProgress_def sameProgress_def
              split: if_splits)
      next
        case Click
        then show ?thesis using assms(2) \<open>missionCompleted s\<close>
          by (simp add: toggleRecording_def startRecording_def stopRecording_def Let_def
              sameProgress_def)
      next
        case Timeout
        then show ?thesis using assms(2) timeout_completed [OF cs \<open>\<not> endlessMode s\<close> \<open>missionCompleted s\<close>]
          by (auto simp: stateOf_def split: if_splits)
      qed
      ultimately show False using grew now by (auto simp: sameProgress_def)
    qed
    then show ?thesis using now cs' by (auto simp: consistent_def stateOf_def split: if_splits)
  qed
  have entered: "completedTones s' = completedTones s + 1"
    if "stateOf s \<noteq> Completed" "stateOf s' = Completed"
  proof -
    have now: "missionCompleted s'" "\<not> endlessMode s'"
      using that(2) by (auto simp: stateOf_def split: if_splits)
    have "\<not> missionCompleted s"
      using that(1) cs by (auto simp: stateOf_def consistent_def split: if_splits)
    then show ?thesis using completed_entered [of s e] now(1) assms(2) by simp
  qed
  have enter: "e = Timeout \<and> stateOf s = Completed \<and> completedTones s = length targetTones"
    if "stateOf s' = EndlessMode" "stateOf s \<noteq> EndlessMode"
  proof -
    have e: "endlessMode s'" "\<not> endlessMode s"
      using that by (auto simp: stateOf_def split: if_splits)
    then obtain delay rest where "e = Timeout" "timers s = (delay, EnterEndlessMode) # rest"
      using endlessMode_entered [of s e] assms(2) by auto
    then show ?thesis using cs e(2)
      by (auto simp: consistent_def stateOf_def split: if_splits)
  qed
  have fire: "completedTones s' = completedTones s
      \<and> (if completedTones s = length targetTones
          then stateOf s' = EndlessMode \<and> currentToneIndex s' = currentToneIndex s
          else stateOf s' = Idle \<and> currentToneIndex s' = currentToneIndex s + 1)"
    if "e = Timeout" "stateOf s = Completed"
  proof -
    have "\<not> endlessMode s" "missionCompleted s"
      using that(2) by (auto simp: stateOf_def split: if_splits)
    then show ?thesis using timeout_completed [OF cs] that(1) assms(2) by simp
  qed
  show ?thesis using bound mono inc entered enter fire length_targetTones by blast
qed

text \<open>
  C6, witness: the first completion (count 1, the timer advances to the second target
  when it fires) and the third (count 3, the timer enters endless mode).
\<close>

theorem completedTones_progress_witness:
  "stateOf hitting = HittingTarget \<and> completedTones hitting = 0
   \<and> completedTones (step hitting (Frame (tone 22) 48000 1600)) = 1
   \<and> stateOf (step hitting (Frame (tone 22) 48000 1600)) = Completed
   \<and> timers (step hitting (Frame (tone 22) 48000 1600)) = [(3000, NextMission)]
   \<and> stateOf (step completed Timeout) = Idle
   \<and> currentToneIndex (step completed Timeout) = 1
   \<and> completedTones (step completed Timeout) = 1
   \<and> stateOf (run thirdMission atThirdTarget) = Completed
   \<and> completedTones (run thirdMission atThirdTarget) = 3
   \<and> timers (run thirdMission atThirdTarget) = [(3000, EnterEndlessMode)]
   \<and> stateOf (step (run thirdMission atThirdTarget) Timeout) = EndlessMode"
  using completedTones_progress [OF hitting_def refl, of "Frame (tone 22) 48000 1600"]
    completedTones_progress [OF completed_def refl, of Timeout]
    completedTones_progress [OF run_thirdMission_reached refl, of Timeout]
  by (simp add: hitting_eq completed_eq run_thirdMission stateOf_def station_defs
      findDominantFrequency_tone)

text \<open>
  C7. Once a session is in endless mode it stays there: whatever events follow, the state
  is EndlessMode, the target index and the count of completed tones are unchanged, no
  mission is completed, no hit runs, the hold window stays empty, the progress display
  keeps its value and no timer is pending.
\<close>

theorem endlessMode_terminal:
  assumes "s = run es initial" and "stateOf s = EndlessMode" and "s' = run later s"
  shows "stateOf s' = EndlessMode \<and> currentToneIndex s' = currentToneIndex s
    \<and> completedTones s' = completedTones s \<and> \<not> missionCompleted s'
    \<and> \<not> isHittingTarget s' \<and> hitDuration s' = 0 \<and> hitStartTime s' = 0
    \<and> hitProgress s' = hitProgress s \<and> timers s' = []"
proof -
  have cs: "consistent s" using assms(1) consistent_initial consistent_run by simp
  have e: "endlessMode s" using assms(2) by (auto simp: stateOf_def split: if_splits)
  have "frozen s s'" using frozen_run [OF cs e] assms(3) by simp
  then show ?thesis using cs e
    by (simp add: frozen_def sameProgress_def consistent_def stateOf_def)
qed

text \<open>
  C7, witness: in endless mode, frames on the first and third targets, a silent frame,
  two clicks and a timeout change neither the state nor the counters.
\<close>

theorem endlessMode_terminal_witness:
  "stateOf inEndlessMode = EndlessMode
   \<and> stateOf (run [Frame (tone 22) 48000 20000, Frame (tone 22) 48000 30000, Click, Timeout,
         Click, Frame (tone 37) 48000 40000, Frame quiet 48000 40016] inEndlessMode)
       = EndlessMode
   \<and> currentToneIndex (run [Frame (tone 22) 48000 20000, Frame (tone 22) 48000 30000, Click,
         Timeout, Click, Frame (tone 37) 48000 40000, Frame quiet 48000 40016] inEndlessMode)
       = 2
   \<and> completedTones (run [Frame (tone 22) 48000 20000, Frame (tone 22) 48000 30000, Click,
         Timeout, Click, Frame (tone 37) 48000 40000, Frame quiet 48000 40016] inEndlessMode)
       = 3"
proof -
  have endless: "stateOf inEndlessMode = EndlessMode"
    by (simp add: inEndlessMode_eq stateOf_def)
  show ?thesis
    using endlessMode_terminal [OF inEndlessMode_def endless refl] endless
    by (simp add: inEndlessMode_eq)
qed

text \<open>
  C8 (amended). In every state of a session whose frames have non-decreasing timestamps:
  while the station is HittingTarget the ratio handed to the presentation layer is
  \<open>hitDuration / requiredHitDuration\<close> and lies in [0, 1); while it is Idle the ratio
  and the hold duration are 0; in EndlessMode the hold duration is 0.
\<close>

theorem hitProgress_range:
  assumes "sorted (frameTimes es)" and "s = run es initial"
  shows "(stateOf s = HittingTarget \<longrightarrow>
        hitProgress s = real_of_int (hitDuration s) / real_of_int requiredHitDuration
        \<and> 0 \<le> hitProgress s \<and> hitProgress s < 1)
    \<and> (stateOf s = Idle \<longrightarrow> hitProgress s = 0 \<and> hitDuration s = 0)
    \<and> (stateOf s = EndlessMode \<longrightarrow> hitDuration s = 0)"
proof -
  obtain t where "sorted (t # frameTimes es)"
    using assms(1) by (cases "frameTimes es") (auto intro: that [of 0])
  then obtain t' where "progressInv t' s"
    using progressInv_run [OF progressInv_initial] assms(2) by blast
  then show ?thesis
    by (auto simp: progressInv_def requiredHitDuration_def split: missionState.splits)
qed

text \<open>
  C8, witness: 750 ms into a hit the ratio is 1/2; after a frame off target the station
  is idle and the ratio is 0; in endless mode the hold duration is 0.
\<close>

theorem hitProgress_range_witness:
  "sorted (frameTimes [Click, Frame (tone 22) 48000 0, Frame (tone 22) 48000 750])
   \<and> stateOf (run [Click, Frame (tone 22) 48000 0, Frame (tone 22) 48000 750] initial)
       = HittingTarget
   \<and> hitProgress (run [Click, Frame (tone 22) 48000 0, Frame (tone 22) 48000 750] initial)
       = 1 / 2
   \<and> sorted (frameTimes [Click, Frame (tone 22) 48000 0, Frame (tone 60) 48000 750])
   \<and> stateOf (run [Click, Frame (tone 22) 48000 0, Frame (tone 60) 48000 750] initial) = Idle
   \<and> hitProgress (run [Click, Frame (tone 22) 48000 0, Frame (tone 60) 48000 750] initial) = 0
   \<and> sorted (frameTimes (firstMission @ secondMission @ thirdMission @ [Timeout]))
   \<and> stateOf inEndlessMode = EndlessMode \<and> hitDuration inEndlessMode = 0"
proof -
  have a: "sorted (frameTimes [Click, Frame (tone 22) 48000 0, Frame (tone 22) 48000 750])"
    and b: "sorted (frameTimes [Click, Frame (tone 22) 48000 0, Frame (tone 60) 48000 750])"
    and e: "sorted (frameTimes (firstMission @ secondMission @ thirdMission @ [Timeout]))"
    by (simp_all add: firstMission_def secondMission_def thirdMission_def)
  have c: "run [Click, Frame (tone 22) 48000 0, Frame (tone 22) 48000 750] initial
      = hitting\<lparr>hitDuration := 750, hitProgress := 1 / 2\<rparr>"
    and d: "run [Click, Frame (tone 22) 48000 0, Frame (tone 60) 48000 750] initial
      = hitting\<lparr>isHittingTarget := False\<rparr>"
    by (simp_all add: hitting_eq run_def initial_def station_defs findDominantFrequency_tone)
  show ?thesis
    using hitProgress_range [OF a refl] hitProgress_range [OF b refl]
      hitProgress_range [OF e inEndlessMode_def] a b e
    unfolding c d
    by (simp add: hitting_eq inEndlessMode_eq stateOf_def requiredHitDuration_def)
qed

text \<open>
  C8, counterexample to the claim as stated (the ratio is always in [0, 1], and 0 whenever
  the state is not HittingTarget): after a frame on target at \<open>now = 0\<close> and another at
  \<open>now = 1600\<close> the station is Completed and the ratio is 16/15; the ratio is still
  16/15 in endless mode when no frame came between the last completion and the timer.
\<close>

theorem hitProgress_counterexample:
  "stateOf completed = Completed \<and> hitDuration completed = 1600
   \<and> hitProgress completed = 16 / 15 \<and> 1 < hitProgress completed
   \<and> stateOf inEndlessMode = EndlessMode \<and> hitProgress inEndlessMode = 16 / 15"
  by (simp add: completed_eq inEndlessMode_eq stateOf_def)




text \<open>
  C10. \<^verbatim>\<open>stopRecording\<close> clears the hold window (and the progress display) when the
  mission is neither completed nor in endless mode; otherwise it changes the two recording
  fields only. In both cases the mission-progress fields keep their values.
\<close>

theorem stopRecording_frame:
  "(\<not> missionCompleted s \<and> \<not> endlessMode s \<longrightarrow>
      stopRecording s =
        s\<lparr>audioContext := False, isRecording := False, isHittingTarget := False,
          hitDuration := 0, hitStartTime := 0, hitProgress := 0\<rparr>)
   \<and> (missionCompleted s \<or> endlessMode s \<longrightarrow>
      stopRecording s = s\<lparr>audioContext := False, isRecording := False\<rparr>)
   \<and> completedTones (stopRecording s) = completedTones s
   \<and> currentToneIndex (stopRecording s) = currentToneIndex s
   \<and> missionCompleted (stopRecording s) = missionCompleted s
   \<and> endlessMode (stopRecording s) = endlessMode s"
  by (simp add: stopRecording_def resetMissionState_def updateHitProgress_def Let_def)

text \<open>
  C10, witness: stopping while the first target is being hit clears the window; stopping
  right after a completion, or in endless mode, keeps it.
\<close>

theorem stopRecording_frame_witness:
  "stopRecording hitting = hitting\<lparr>audioContext := False, isRecording := False,
      isHittingTarget := False\<rparr>
   \<and> stopRecording completed = completed\<lparr>audioContext := False, isRecording := False\<rparr>
   \<and> isHittingTarget (stopRecording completed) \<and> hitDuration (stopRecording completed) = 1600
   \<and> stopRecording inEndlessMode = inEndlessMode\<lparr>audioContext := False, isRecording := False\<rparr>"
  using stopRecording_frame [of hitting] stopRecording_frame [of completed]
    stopRecording_frame [of inEndlessMode]
  by (simp add: hitting_eq completed_eq inEndlessMode_eq)

end
